theory Spec2Isabelle
  imports Main
begin

section \<open>Data model of the signaling server (server/src/index.js)\<close>

text \<open>
  Socket identifiers are the strings that the transport assigns to sockets.
\<close>

type_synonym sid = string

text \<open>
  The \<open>user\<close> object built once per connection:
  \<^verbatim>\<open>{ socketId: socket.id, joinedAt: new Date(), userAgent }\<close>.
  \<open>joinedAt\<close> is kept as the millisecond count that \<open>getTime()\<close> returns; the
  \<open>user-agent\<close> header may be missing.
\<close>

record user =
  socketId :: sid
  joinedAt :: int
  userAgent :: "string option"

text \<open>
  A signaling payload is whatever value the client sent with the \<open>signal\<close> event. The
  server only ever reads \<open>payload.type\<close>, which throws a TypeError exactly for
  \<open>undefined\<close> and \<open>null\<close>; every other value is carried opaquely.
\<close>

datatype payload = PUndefined | PNull | PValue string

text \<open>The messages the server emits to a socket, and the lines it logs.\<close>

datatype msg =
    MatchFound sid bool
  | WaitingForPeer
  | SignalMsg payload
  | PeerDisconnected
  | ErrorMsg string

text \<open>
  \<open>Emit t m\<close> stands for \<open>io.to(t).emit(...)\<close> and, with \<open>t\<close> the socket's own
  identifier, for \<open>socket.emit(...)\<close>. \<open>Log i l\<close> stands for
  \<open>logConnection(i, l, details)\<close>; the timestamp and the details object are not kept.
\<close>

datatype out = Emit sid msg | Log sid string

text \<open>
  The module-level variables \<open>waitingQueue\<close>, \<open>peers\<close> and \<open>userInfo\<close>, together
  with \<open>io.sockets.sockets\<close>, the transport's table of live sockets. Each live socket
  is stored with the \<open>user\<close> object that its event handlers closed over.
\<close>

record state =
  waitingQueue :: "user list"
  peers :: "sid \<rightharpoonup> sid"
  userInfo :: "sid \<rightharpoonup> user"
  sockets :: "sid \<rightharpoonup> user"

definition init :: state where
  "init = \<lparr>waitingQueue = [], peers = Map.empty, userInfo = Map.empty, sockets = Map.empty\<rparr>"

text \<open>
  JavaScript truthiness of a value that is \<open>undefined\<close>, \<open>null\<close> or a string, as
  tested by \<open>if (peerSocketId)\<close>: only a non-empty string passes.
\<close>

fun truthy :: "sid option \<Rightarrow> sid option" where
  "truthy None = None"
| "truthy (Some x) = (if x = [] then None else Some x)"

section \<open>Utility functions\<close>

definition cleanupUser :: "sid \<Rightarrow> state \<Rightarrow> state" where
  "cleanupUser sock s =
     (let s1 = (case truthy (peers s sock) of
                  Some peerSocketId \<Rightarrow>
                    s\<lparr>peers := ((peers s)(peerSocketId := None))(sock := None)\<rparr>
                | None \<Rightarrow> s);
          s2 = s1\<lparr>waitingQueue := filter (\<lambda>u. socketId u \<noteq> sock) (waitingQueue s1)\<rparr>
      in s2\<lparr>userInfo := (userInfo s2)(sock := None)\<rparr>)"

text \<open>
  \<open>findMatch\<close> ignores its argument: it shifts the first entry off the queue and
  returns that entry's identifier, or \<open>null\<close> when the queue is empty.
\<close>

definition findMatch :: "sid \<Rightarrow> state \<Rightarrow> sid option \<times> state" where
  "findMatch currentSocketId s =
     (case waitingQueue s of
        [] \<Rightarrow> (None, s)
      | matchedUser # rest \<Rightarrow> (Some (socketId matchedUser), s\<lparr>waitingQueue := rest\<rparr>))"

text \<open>\<open>waitingQueue.push(user)\<close>: the entry is appended, with no check.\<close>

definition push :: "user \<Rightarrow> state \<Rightarrow> state" where
  "push usr s = s\<lparr>waitingQueue := waitingQueue s @ [usr]\<rparr>"

section \<open>Event handlers\<close>

text \<open>
  The body of \<open>io.on("connection", ...)\<close> up to the registration of the socket's
  handlers. \<open>now\<close> is the value of \<open>new Date()\<close>.
\<close>

definition connection :: "sid \<Rightarrow> string option \<Rightarrow> int \<Rightarrow> state \<Rightarrow> state \<times> out list" where
  "connection sock ua now s =
     (let usr = \<lparr>socketId = sock, joinedAt = now, userAgent = ua\<rparr>;
          s1 = s\<lparr>userInfo := (userInfo s)(sock \<mapsto> usr)\<rparr>;
          (m, s2) = findMatch sock s1
      in case truthy m of
           Some peerSocketId \<Rightarrow>
             (s2\<lparr>peers := ((peers s2)(sock \<mapsto> peerSocketId))(peerSocketId \<mapsto> sock)\<rparr>,
              [Log sock ''USER_CONNECTED'', Log sock ''MATCH_FOUND'',
               Emit peerSocketId (MatchFound sock True),
               Emit sock (MatchFound peerSocketId False)])
         | None \<Rightarrow>
             (push usr s2,
              [Log sock ''USER_CONNECTED'', Log sock ''ADDED_TO_QUEUE'',
               Emit sock WaitingForPeer]))"

text \<open>
  The handlers below run inside the closure of one connection; \<open>usr\<close> is that
  closure's \<open>user\<close> object and \<open>socketId usr\<close> its \<open>socket.id\<close>.

  In \<open>signal\<close> the details of the SIGNAL_RELAY log line read \<open>payload.type\<close> before
  the payload is emitted; for \<open>undefined\<close> and \<open>null\<close> that throws, and the
  \<open>catch\<close> block only logs.
\<close>

definition signal :: "user \<Rightarrow> payload \<Rightarrow> state \<Rightarrow> state \<times> out list" where
  "signal usr pl s =
     (let sock = socketId usr;
          noPeer = [Log sock ''SIGNAL_ERROR'',
                    Emit sock (ErrorMsg ''No active peer connection'')]
      in case truthy (peers s sock) of
           Some peerSocketId \<Rightarrow>
             if sockets s peerSocketId \<noteq> None
             then (case pl of
                     PValue v \<Rightarrow>
                       (s, [Log sock ''SIGNAL_RELAY'', Emit peerSocketId (SignalMsg pl)])
                   | _ \<Rightarrow> (s, [Log sock ''SIGNAL_ERROR'']))
             else (s, noPeer)
         | None \<Rightarrow> (s, noPeer))"

definition findNext :: "user \<Rightarrow> state \<Rightarrow> state \<times> out list" where
  "findNext usr s =
     (let sock = socketId usr;
          (s1, o1) = (case truthy (peers s sock) of
                        Some currentPeer \<Rightarrow>
                          (s\<lparr>peers := ((peers s)(currentPeer := None))(sock := None)\<rparr>,
                           [Emit currentPeer PeerDisconnected])
                      | None \<Rightarrow> (s, []));
          (m, s2) = findMatch sock s1
      in case truthy m of
           Some newPeerSocketId \<Rightarrow>
             (s2\<lparr>peers := ((peers s2)(sock \<mapsto> newPeerSocketId))(newPeerSocketId \<mapsto> sock)\<rparr>,
              Log sock ''FIND_NEXT_REQUESTED'' # o1 @
              [Log sock ''NEW_MATCH_FOUND'',
               Emit newPeerSocketId (MatchFound sock True),
               Emit sock (MatchFound newPeerSocketId False)])
         | None \<Rightarrow>
             (push usr s2,
              Log sock ''FIND_NEXT_REQUESTED'' # o1 @
              [Log sock ''ADDED_TO_QUEUE_AGAIN'', Emit sock WaitingForPeer]))"

definition disconnect :: "user \<Rightarrow> state \<Rightarrow> state \<times> out list" where
  "disconnect usr s =
     (let sock = socketId usr;
          o1 = (case truthy (peers s sock) of
                  Some peerSocketId \<Rightarrow>
                    if sockets s peerSocketId \<noteq> None
                    then [Emit peerSocketId PeerDisconnected] else []
                | None \<Rightarrow> [])
      in (cleanupUser sock s, Log sock ''USER_DISCONNECTED'' # o1))"

text \<open>The periodic cleanup registered with \<open>setInterval(..., 60000)\<close>.\<close>

definition timeout :: int where
  "timeout = 5 * 60 * 1000"

definition sweepPeriod :: int where
  "sweepPeriod = 60000"

definition isExpired :: "int \<Rightarrow> user \<Rightarrow> bool" where
  "isExpired now u = (now - joinedAt u > timeout)"

definition sweep :: "int \<Rightarrow> state \<Rightarrow> state \<times> out list" where
  "sweep now s =
     (s\<lparr>waitingQueue := filter (\<lambda>u. \<not> isExpired now u) (waitingQueue s)\<rparr>,
      map (\<lambda>u. Log (socketId u) ''QUEUE_TIMEOUT'') (filter (isExpired now) (waitingQueue s)))"

section \<open>The server as a transition system\<close>

text \<open>
  One event is one callback run to completion. The transport adds a socket to
  \<open>io.sockets.sockets\<close> before it fires \<open>connection\<close> and removes it before it
  fires \<open>disconnect\<close>; a socket that is not live has no handlers, so an event addressed
  to it does nothing.
\<close>

datatype event =
    Connect sid "string option" int
  | Signal sid payload
  | FindNext sid
  | Disconnect sid
  | Sweep int

fun step :: "event \<Rightarrow> state \<Rightarrow> state \<times> out list" where
  "step (Connect sock ua now) s =
     connection sock ua now
       (s\<lparr>sockets := (sockets s)(sock \<mapsto> \<lparr>socketId = sock, joinedAt = now, userAgent = ua\<rparr>)\<rparr>)"
| "step (Signal sock pl) s =
     (case sockets s sock of Some usr \<Rightarrow> signal usr pl s | None \<Rightarrow> (s, []))"
| "step (FindNext sock) s =
     (case sockets s sock of Some usr \<Rightarrow> findNext usr s | None \<Rightarrow> (s, []))"
| "step (Disconnect sock) s =
     (case sockets s sock of
        Some usr \<Rightarrow> disconnect usr (s\<lparr>sockets := (sockets s)(sock := None)\<rparr>)
      | None \<Rightarrow> (s, []))"
| "step (Sweep now) s = sweep now s"

fun run :: "event list \<Rightarrow> state \<Rightarrow> state \<times> out list" where
  "run [] s = (s, [])"
| "run (e # es) s =
     (let (s1, o1) = step e s; (s2, o2) = run es s1 in (s2, o1 @ o2))"

text \<open>
  The transport gives every new socket a non-empty identifier that no live socket has.
\<close>

fun enabled :: "event \<Rightarrow> state \<Rightarrow> bool" where
  "enabled (Connect sock ua now) s = (sock \<noteq> [] \<and> sockets s sock = None)"
| "enabled e s = True"

fun wf_trace :: "event list \<Rightarrow> state \<Rightarrow> bool" where
  "wf_trace [] s = True"
| "wf_trace (e # es) s = (enabled e s \<and> wf_trace es (fst (step e s)))"

text \<open>The state reached by a trace from the initial state.\<close>

definition final :: "event list \<Rightarrow> state" where
  "final evs = fst (run evs init)"

section \<open>Notions used to state the properties\<close>

text \<open>Repeated matching: the identifiers returned by \<open>n\<close> successive calls of \<open>findMatch\<close>.\<close>

fun matches :: "nat \<Rightarrow> state \<Rightarrow> sid option list" where
  "matches 0 s = []"
| "matches (Suc n) s = (let (m, s1) = findMatch [] s in m # matches n s1)"

text \<open>The messages that a run of a handler emitted, in order, each with its addressee.\<close>

fun emitted :: "out list \<Rightarrow> (sid \<times> msg) list" where
  "emitted [] = []"
| "emitted (Emit t m # os) = (t, m) # emitted os"
| "emitted (Log i l # os) = emitted os"

fun isMatchFound :: "sid \<times> msg \<Rightarrow> bool" where
  "isMatchFound (t, MatchFound p i) = True"
| "isMatchFound (t, m) = False"

text \<open>The number of queue entries that a connection has.\<close>

definition entries :: "state \<Rightarrow> sid \<Rightarrow> nat" where
  "entries s x = length (filter (\<lambda>u. socketId u = x) (waitingQueue s))"

text \<open>
  Where a connection identifier stands with respect to the queue and the pairing table:
  it has a queue entry, it has an entry in \<open>peers\<close>, or it is present in neither.
\<close>

datatype membership = NotPresent | QUEUED | PAIRED

fun inState :: "state \<Rightarrow> sid \<Rightarrow> membership \<Rightarrow> bool" where
  "inState s x NotPresent = (entries s x = 0 \<and> peers s x = None)"
| "inState s x QUEUED = (0 < entries s x)"
| "inState s x PAIRED = (peers s x \<noteq> None)"


text \<open>
  The two phases that the handlers are made of. \<open>unpair\<close> is the removal of a pairing
  that opens \<open>cleanupUser\<close> and \<open>find-next\<close>; \<open>matching\<close> is the state change of the
  match-or-enqueue block that closes \<open>connection\<close> and \<open>find-next\<close>. The handlers above
  are not defined through them; \<open>fst_connection\<close>, \<open>fst_findNext\<close> and
  \<open>cleanupUser_unpair\<close> below relate the two.
\<close>

definition unpair :: "sid \<Rightarrow> state \<Rightarrow> state" where
  "unpair sock s =
     (case truthy (peers s sock) of
        Some p \<Rightarrow> s\<lparr>peers := ((peers s)(p := None))(sock := None)\<rparr>
      | None \<Rightarrow> s)"

definition matching :: "user \<Rightarrow> state \<Rightarrow> state" where
  "matching usr s =
     (let (m, s2) = findMatch (socketId usr) s
      in case truthy m of
           Some p \<Rightarrow> s2\<lparr>peers := ((peers s2)(socketId usr \<mapsto> p))(p \<mapsto> socketId usr)\<rparr>
         | None \<Rightarrow> push usr s2)"

text \<open>
  The invariant of the reachable states: the queue holds at most one entry; a queued
  connection is live, is queued with its own \<open>user\<close> object and has no pairing; the
  pairing table is symmetric and mentions live connections only; every live socket is
  filed under its own, non-empty identifier.
\<close>

definition consistent :: "state \<Rightarrow> bool" where
  "consistent s \<longleftrightarrow>
     length (waitingQueue s) \<le> 1
     \<and> (\<forall>u \<in> set (waitingQueue s). sockets s (socketId u) = Some u \<and> peers s (socketId u) = None)
     \<and> (\<forall>a b. peers s a = Some b \<longrightarrow> peers s b = Some a \<and> sockets s a \<noteq> None)
     \<and> (\<forall>a u. sockets s a = Some u \<longrightarrow> socketId u = a \<and> a \<noteq> [])"

section \<open>Example runs\<close>

text \<open>
  The scenario of three connections: A waits, B is matched with A, C waits, A skips and
  is matched with C, B leaves, and the sweep runs after 400 seconds.
\<close>

definition exampleTrace :: "event list" where
  "exampleTrace =
     [Connect ''A'' None 0, Connect ''B'' None 1000, Connect ''C'' None 2000,
      FindNext ''A'', Disconnect ''B'', Sweep 400000]"

definition userA :: user where
  "userA = \<lparr>socketId = ''A'', joinedAt = 0, userAgent = None\<rparr>"

text \<open>A single connection that waits, and the same connection skipping while it waits.\<close>

definition waitingA :: "event list" where
  "waitingA = [Connect ''A'' None 0]"

definition skipWhileQueued :: "event list" where
  "skipWhileQueued = [Connect ''A'' None 0, FindNext ''A'']"

text \<open>
  A and B matched with each other, and the same run followed by A skipping: the queue is
  empty then, so A is enqueued again.
\<close>

definition pairedAB :: "event list" where
  "pairedAB = [Connect ''A'' None 0, Connect ''B'' None 1000]"

definition userB :: user where
  "userB = \<lparr>socketId = ''B'', joinedAt = 1000, userAgent = None\<rparr>"

definition requeuedA :: "event list" where
  "requeuedA = [Connect ''A'' None 0, Connect ''B'' None 1000, FindNext ''A'']"

section \<open>The invariant of the reachable states\<close>

lemma consistentI:
  assumes "length (waitingQueue s) \<le> 1"
    and "\<And>u. u \<in> set (waitingQueue s) \<Longrightarrow> sockets s (socketId u) = Some u"
    and "\<And>u. u \<in> set (waitingQueue s) \<Longrightarrow> peers s (socketId u) = None"
    and "\<And>a b. peers s a = Some b \<Longrightarrow> peers s b = Some a"
    and "\<And>a b. peers s a = Some b \<Longrightarrow> sockets s a \<noteq> None"
    and "\<And>a u. sockets s a = Some u \<Longrightarrow> socketId u = a"
    and "\<And>a u. sockets s a = Some u \<Longrightarrow> a \<noteq> []"
  shows "consistent s"
  unfolding consistent_def using assms by blast

lemma queue_le1: "consistent s \<Longrightarrow> length (waitingQueue s) \<le> 1"
  unfolding consistent_def by blast

lemma queue_live: "consistent s \<Longrightarrow> u \<in> set (waitingQueue s) \<Longrightarrow> sockets s (socketId u) = Some u"
  unfolding consistent_def by blast

lemma queue_unpaired: "consistent s \<Longrightarrow> u \<in> set (waitingQueue s) \<Longrightarrow> peers s (socketId u) = None"
  unfolding consistent_def by blast

lemma peers_sym: "consistent s \<Longrightarrow> peers s a = Some b \<Longrightarrow> peers s b = Some a"
  unfolding consistent_def by blast

lemma peers_live: "consistent s \<Longrightarrow> peers s a = Some b \<Longrightarrow> sockets s a \<noteq> None"
  unfolding consistent_def by blast

lemma sockets_id: "consistent s \<Longrightarrow> sockets s a = Some u \<Longrightarrow> socketId u = a"
  unfolding consistent_def by blast

lemma sockets_nonempty: "consistent s \<Longrightarrow> sockets s a = Some u \<Longrightarrow> a \<noteq> []"
  unfolding consistent_def by blast

lemma consistent_init: "consistent init"
  by (rule consistentI) (simp_all add: init_def)

lemma length_filter_le1: "length q \<le> Suc 0 \<Longrightarrow> length (filter P q) \<le> Suc 0"
  by (rule order_trans [OF length_filter_le])

lemma consistent_sweep:
  assumes "consistent s"
  shows "consistent (fst (sweep now s))"
proof (rule consistentI)
  show "length (waitingQueue (fst (sweep now s))) \<le> 1"
    using queue_le1 [OF assms] by (simp add: sweep_def length_filter_le1)
next
  fix u assume "u \<in> set (waitingQueue (fst (sweep now s)))"
  then have u: "u \<in> set (waitingQueue s)" by (simp add: sweep_def)
  from queue_live [OF assms u] show "sockets (fst (sweep now s)) (socketId u) = Some u"
    by (simp add: sweep_def)
  from queue_unpaired [OF assms u] show "peers (fst (sweep now s)) (socketId u) = None"
    by (simp add: sweep_def)
next
  fix a b assume "peers (fst (sweep now s)) a = Some b"
  then have p: "peers s a = Some b" by (simp add: sweep_def)
  from peers_sym [OF assms p] show "peers (fst (sweep now s)) b = Some a"
    by (simp add: sweep_def)
  from peers_live [OF assms p] show "sockets (fst (sweep now s)) a \<noteq> None"
    by (simp add: sweep_def)
next
  fix a u assume "sockets (fst (sweep now s)) a = Some u"
  then have p: "sockets s a = Some u" by (simp add: sweep_def)
  from sockets_id [OF assms p] show "socketId u = a" .
  from sockets_nonempty [OF assms p] show "a \<noteq> []" .
qed

lemma peers_nonempty:
  assumes "consistent s" "peers s a = Some b"
  shows "a \<noteq> []" "b \<noteq> []"
proof -
  from peers_live [OF assms] obtain u where "sockets s a = Some u" by blast
  from sockets_nonempty [OF assms(1) this] show "a \<noteq> []" .
  from peers_sym [OF assms] have "peers s b = Some a" .
  from peers_live [OF assms(1) this] obtain v where "sockets s b = Some v" by blast
  from sockets_nonempty [OF assms(1) this] show "b \<noteq> []" .
qed

lemma truthy_peers: "consistent s \<Longrightarrow> truthy (peers s a) = peers s a"
  by (cases "peers s a") (simp_all add: peers_nonempty)

lemma waitingQueue_cleanupUser:
  "waitingQueue (cleanupUser sock s) = filter (\<lambda>u. socketId u \<noteq> sock) (waitingQueue s)"
  by (simp add: cleanupUser_def Let_def split: option.splits)

lemma sockets_cleanupUser: "sockets (cleanupUser sock s) = sockets s"
  by (simp add: cleanupUser_def Let_def split: option.splits)

lemma peers_cleanupUser:
  "peers (cleanupUser sock s) =
     (case truthy (peers s sock) of
        Some p \<Rightarrow> ((peers s)(p := None))(sock := None)
      | None \<Rightarrow> peers s)"
  by (simp add: cleanupUser_def Let_def split: option.splits)

lemma unpair_Some:
  assumes sym: "\<And>a b. m a = Some b \<Longrightarrow> m b = Some a"
    and k: "m k = Some p"
    and x: "((m(p := None))(k := None)) x = Some y"
  shows "m x = Some y" "x \<noteq> k" "x \<noteq> p" "y \<noteq> k" "y \<noteq> p"
proof -
  from x show xk: "x \<noteq> k" and xp: "x \<noteq> p" by (auto split: if_splits)
  with x show mx: "m x = Some y" by simp
  from sym [OF mx] have my: "m y = Some x" .
  from sym [OF k] have mp: "m p = Some k" .
  from my k xp show "y \<noteq> k" by auto
  from my mp xk show "y \<noteq> p" by auto
qed

lemma consistent_disconnect:
  assumes c: "consistent s" and live: "sockets s sock = Some usr"
  shows "consistent (fst (disconnect usr (s\<lparr>sockets := (sockets s)(sock := None)\<rparr>)))"
proof -
  let ?s = "s\<lparr>sockets := (sockets s)(sock := None)\<rparr>"
  let ?t = "cleanupUser sock ?s"
  have id: "socketId usr = sock" using sockets_id [OF c live] .
  have t: "fst (disconnect usr ?s) = ?t"
    by (simp add: disconnect_def Let_def id)
  have q: "waitingQueue ?t = filter (\<lambda>u. socketId u \<noteq> sock) (waitingQueue s)"
    by (simp add: waitingQueue_cleanupUser)
  have so: "sockets ?t = (sockets s)(sock := None)"
    by (simp add: sockets_cleanupUser)
  have pe: "peers ?t = (case peers s sock of
        Some p \<Rightarrow> ((peers s)(p := None))(sock := None)
      | None \<Rightarrow> peers s)"
    using truthy_peers [OF c, of sock] by (simp add: peers_cleanupUser split: option.splits)
  have old: "peers s a = Some b \<and> a \<noteq> sock \<and> b \<noteq> sock \<and> peers ?t b = Some a"
    if "peers ?t a = Some b" for a b
  proof (cases "peers s sock")
    case None
    with that pe have ab: "peers s a = Some b" by simp
    from peers_sym [OF c ab] have ba: "peers s b = Some a" .
    from ab ba None pe show ?thesis by auto
  next
    case (Some p)
    with that pe have x: "((peers s)(p := None, sock := None)) a = Some b" by simp
    note u = unpair_Some [OF peers_sym [OF c] Some x]
    from peers_sym [OF c u(1)] have "peers s b = Some a" .
    with u pe Some show ?thesis by simp
  qed
  have "consistent ?t"
  proof (rule consistentI)
    show "length (waitingQueue ?t) \<le> 1"
      using queue_le1 [OF c] by (simp add: q length_filter_le1)
  next
    fix u assume "u \<in> set (waitingQueue ?t)"
    then have u: "u \<in> set (waitingQueue s)" "socketId u \<noteq> sock" by (simp_all add: q)
    from queue_live [OF c u(1)] u(2) show "sockets ?t (socketId u) = Some u"
      by (simp add: so)
    from queue_unpaired [OF c u(1)] show "peers ?t (socketId u) = None"
      by (simp add: pe split: option.splits)
  next
    fix a b assume ab: "peers ?t a = Some b"
    from old [OF ab] show "peers ?t b = Some a" by simp
    from old [OF ab] peers_live [OF c, of a b] show "sockets ?t a \<noteq> None"
      by (simp add: so)
  next
    fix a u assume "sockets ?t a = Some u"
    then have p: "sockets s a = Some u" by (simp add: so split: if_splits)
    from sockets_id [OF c p] show "socketId u = a" .
    from sockets_nonempty [OF c p] show "a \<noteq> []" .
  qed
  with t show ?thesis by simp
qed

lemma fst_signal: "fst (signal u pl s) = s"
  by (simp add: signal_def Let_def split: option.splits payload.splits)

lemma fst_connection:
  "fst (connection sock ua now s) =
     matching \<lparr>socketId = sock, joinedAt = now, userAgent = ua\<rparr>
       (s\<lparr>userInfo := (userInfo s)(sock \<mapsto> \<lparr>socketId = sock, joinedAt = now, userAgent = ua\<rparr>)\<rparr>)"
  by (simp add: connection_def matching_def Let_def split: prod.splits option.splits)

lemma fst_findNext: "fst (findNext usr s) = matching usr (unpair (socketId usr) s)"
  by (simp add: findNext_def matching_def unpair_def Let_def split: prod.splits option.splits)

lemma cleanupUser_unpair:
  "cleanupUser sock s =
     (unpair sock s)\<lparr>waitingQueue := filter (\<lambda>u. socketId u \<noteq> sock) (waitingQueue s),
                     userInfo := (userInfo s)(sock := None)\<rparr>"
  by (simp add: cleanupUser_def unpair_def Let_def split: option.splits)

lemma unpair_fields:
  "waitingQueue (unpair sock s) = waitingQueue s"
  "sockets (unpair sock s) = sockets s"
  "userInfo (unpair sock s) = userInfo s"
  by (simp_all add: unpair_def split: option.splits)

lemma peers_unpair:
  "consistent s \<Longrightarrow> peers (unpair sock s) =
     (case peers s sock of Some p \<Rightarrow> ((peers s)(p := None))(sock := None) | None \<Rightarrow> peers s)"
  using truthy_peers [of s sock] by (simp add: unpair_def split: option.splits)

lemma unpair_old:
  assumes c: "consistent s" and ab: "peers (unpair sock s) a = Some b"
  shows "peers s a = Some b \<and> a \<noteq> sock \<and> b \<noteq> sock \<and> peers (unpair sock s) b = Some a"
proof (cases "peers s sock")
  case None
  with ab peers_unpair [OF c, of sock] have ab': "peers s a = Some b" by simp
  from peers_sym [OF c ab'] have ba: "peers s b = Some a" .
  from ab' ba None peers_unpair [OF c, of sock] show ?thesis by auto
next
  case (Some p)
  with ab peers_unpair [OF c, of sock]
  have x: "((peers s)(p := None, sock := None)) a = Some b" by simp
  note u = unpair_Some [OF peers_sym [OF c] Some x]
  from peers_sym [OF c u(1)] have "peers s b = Some a" .
  with u peers_unpair [OF c, of sock] Some show ?thesis by simp
qed

lemma peers_unpair_self: "consistent s \<Longrightarrow> peers (unpair sock s) sock = None"
  by (simp add: peers_unpair split: option.splits)

lemma peers_unpair_None: "consistent s \<Longrightarrow> peers s a = None \<Longrightarrow> peers (unpair sock s) a = None"
  by (simp add: peers_unpair split: option.splits)

lemma consistent_unpair:
  assumes c: "consistent s"
  shows "consistent (unpair sock s)"
proof (rule consistentI)
  show "length (waitingQueue (unpair sock s)) \<le> 1"
    using queue_le1 [OF c] by (simp add: unpair_fields)
next
  fix u assume "u \<in> set (waitingQueue (unpair sock s))"
  then have u: "u \<in> set (waitingQueue s)" by (simp add: unpair_fields)
  from queue_live [OF c u] show "sockets (unpair sock s) (socketId u) = Some u"
    by (simp add: unpair_fields)
  from queue_unpaired [OF c u] show "peers (unpair sock s) (socketId u) = None"
    by (rule peers_unpair_None [OF c])
next
  fix a b assume ab: "peers (unpair sock s) a = Some b"
  from unpair_old [OF c ab] show "peers (unpair sock s) b = Some a" by simp
  from unpair_old [OF c ab] peers_live [OF c, of a b] show "sockets (unpair sock s) a \<noteq> None"
    by (simp add: unpair_fields)
next
  fix a u assume "sockets (unpair sock s) a = Some u"
  then have p: "sockets s a = Some u" by (simp add: unpair_fields)
  from sockets_id [OF c p] show "socketId u = a" .
  from sockets_nonempty [OF c p] show "a \<noteq> []" .
qed

lemma queue_shape: "consistent s \<Longrightarrow> waitingQueue s = [] \<or> (\<exists>w. waitingQueue s = [w])"
  using queue_le1 [of s] by (cases "waitingQueue s") auto

lemma matching_empty:
  "waitingQueue s = [] \<Longrightarrow> matching usr s = s\<lparr>waitingQueue := [usr]\<rparr>"
  by (simp add: matching_def findMatch_def push_def)

lemma matching_single:
  "waitingQueue s = [w] \<Longrightarrow> socketId w \<noteq> [] \<Longrightarrow>
   matching usr s = s\<lparr>waitingQueue := [],
      peers := ((peers s)(socketId usr \<mapsto> socketId w))(socketId w \<mapsto> socketId usr)\<rparr>"
  by (simp add: matching_def findMatch_def)

lemma consistent_matching:
  assumes c: "consistent s" and live: "sockets s (socketId usr) = Some usr"
    and un: "peers s (socketId usr) = None"
  shows "consistent (matching usr s)"
proof -
  from queue_shape [OF c] show ?thesis
  proof
    assume e: "waitingQueue s = []"
    have "consistent (s\<lparr>waitingQueue := [usr]\<rparr>)"
    proof (rule consistentI)
      fix a b assume ab: "peers (s\<lparr>waitingQueue := [usr]\<rparr>) a = Some b"
      then have ab': "peers s a = Some b" by simp
      from peers_sym [OF c ab'] show "peers (s\<lparr>waitingQueue := [usr]\<rparr>) b = Some a" by simp
      from peers_live [OF c ab'] show "sockets (s\<lparr>waitingQueue := [usr]\<rparr>) a \<noteq> None" by simp
    next
      fix a u assume "sockets (s\<lparr>waitingQueue := [usr]\<rparr>) a = Some u"
      then have p: "sockets s a = Some u" by simp
      from sockets_id [OF c p] show "socketId u = a" .
      from sockets_nonempty [OF c p] show "a \<noteq> []" .
    qed (simp_all add: live un)
    with e show ?thesis by (simp add: matching_empty)
  next
    assume "\<exists>w. waitingQueue s = [w]"
    then obtain w where q: "waitingQueue s = [w]" ..
    then have win: "w \<in> set (waitingQueue s)" by simp
    let ?k = "socketId usr" and ?w = "socketId w"
    from queue_live [OF c win] have wl: "sockets s ?w = Some w" .
    from sockets_nonempty [OF c wl] have wne: "?w \<noteq> []" .
    from queue_unpaired [OF c win] have wu: "peers s ?w = None" .
    let ?t = "s\<lparr>waitingQueue := [], peers := ((peers s)(?k \<mapsto> ?w))(?w \<mapsto> ?k)\<rparr>"
    have "consistent ?t"
    proof (rule consistentI)
      fix a b assume ab: "peers ?t a = Some b"
      show "peers ?t b = Some a"
      proof (cases "a = ?w \<or> a = ?k")
        case True
        with ab show ?thesis by (auto split: if_splits)
      next
        case False
        with ab have ab': "peers s a = Some b" by simp
        from peers_sym [OF c ab'] have ba: "peers s b = Some a" .
        with un wu have "b \<noteq> ?k" "b \<noteq> ?w" by auto
        with ba show ?thesis by simp
      qed
      show "sockets ?t a \<noteq> None"
      proof (cases "a = ?w \<or> a = ?k")
        case True
        with wl live show ?thesis by auto
      next
        case False
        with ab have ab': "peers s a = Some b" by simp
        from peers_live [OF c ab'] show ?thesis by simp
      qed
    next
      fix a u assume "sockets ?t a = Some u"
      then have p: "sockets s a = Some u" by simp
      from sockets_id [OF c p] show "socketId u = a" .
      from sockets_nonempty [OF c p] show "a \<noteq> []" .
    qed simp_all
    with q wne show ?thesis by (simp add: matching_single)
  qed
qed

lemma consistent_register:
  assumes c: "consistent s" and ne: "sock \<noteq> []" and fresh: "sockets s sock = None"
    and id: "socketId usr = sock"
  shows "consistent (s\<lparr>sockets := (sockets s)(sock \<mapsto> usr), userInfo := ui\<rparr>)"
    (is "consistent ?t")
proof (rule consistentI)
  show "length (waitingQueue ?t) \<le> 1" using queue_le1 [OF c] by simp
next
  fix u assume "u \<in> set (waitingQueue ?t)"
  then have u: "u \<in> set (waitingQueue s)" by simp
  from queue_live [OF c u] fresh show "sockets ?t (socketId u) = Some u" by auto
  from queue_unpaired [OF c u] show "peers ?t (socketId u) = None" by simp
next
  fix a b assume "peers ?t a = Some b"
  then have ab: "peers s a = Some b" by simp
  from peers_sym [OF c ab] show "peers ?t b = Some a" by simp
  from peers_live [OF c ab] show "sockets ?t a \<noteq> None" by simp
next
  fix a u assume au: "sockets ?t a = Some u"
  show "socketId u = a"
  proof (cases "a = sock")
    case True with au id show ?thesis by simp
  next
    case False
    with au have "sockets s a = Some u" by simp
    from sockets_id [OF c this] show ?thesis .
  qed
  show "a \<noteq> []"
  proof (cases "a = sock")
    case True with ne show ?thesis by simp
  next
    case False
    with au have "sockets s a = Some u" by simp
    from sockets_nonempty [OF c this] show ?thesis .
  qed
qed

lemma not_live_unpaired: "consistent s \<Longrightarrow> sockets s a = None \<Longrightarrow> peers s a = None"
  using peers_live [of s a] by (cases "peers s a") auto

lemma consistent_step:
  assumes c: "consistent s" and en: "enabled e s"
  shows "consistent (fst (step e s))"
proof (cases e)
  case (Connect sock ua now)
  let ?u = "\<lparr>socketId = sock, joinedAt = now, userAgent = ua\<rparr>"
  let ?t = "s\<lparr>sockets := (sockets s)(sock \<mapsto> ?u), userInfo := (userInfo s)(sock \<mapsto> ?u)\<rparr>"
  from en Connect have ne: "sock \<noteq> []" and fresh: "sockets s sock = None" by simp_all
  have ct: "consistent ?t" by (rule consistent_register [OF c ne fresh]) simp
  have "consistent (matching ?u ?t)"
    by (rule consistent_matching [OF ct]) (simp_all add: not_live_unpaired [OF c fresh])
  with Connect show ?thesis by (simp add: fst_connection)
next
  case (Signal sock pl)
  with c show ?thesis by (simp add: fst_signal split: option.splits)
next
  case (FindNext sock)
  show ?thesis
  proof (cases "sockets s sock")
    case None
    with FindNext c show ?thesis by simp
  next
    case (Some usr)
    from sockets_id [OF c Some] have id: "socketId usr = sock" .
    have "consistent (matching usr (unpair sock s))"
      by (rule consistent_matching [OF consistent_unpair [OF c]])
        (simp_all add: id unpair_fields Some peers_unpair_self [OF c])
    with FindNext Some show ?thesis by (simp add: fst_findNext id)
  qed
next
  case (Disconnect sock)
  show ?thesis
  proof (cases "sockets s sock")
    case None
    with Disconnect c show ?thesis by simp
  next
    case (Some usr)
    from consistent_disconnect [OF c Some] Disconnect Some show ?thesis by simp
  qed
next
  case (Sweep now)
  with consistent_sweep [OF c] show ?thesis by simp
qed

lemma fst_run_Cons: "fst (run (e # es) s) = fst (run es (fst (step e s)))"
  by (simp add: Let_def split: prod.splits)

lemma consistent_run:
  "consistent s \<Longrightarrow> wf_trace evs s \<Longrightarrow> consistent (fst (run evs s))"
proof (induction evs arbitrary: s)
  case Nil
  then show ?case by simp
next
  case (Cons e es)
  from Cons.prems have en: "enabled e s" and wf: "wf_trace es (fst (step e s))" by simp_all
  from Cons.IH [OF consistent_step [OF Cons.prems(1) en] wf] show ?case
    by (simp only: fst_run_Cons)
qed

lemma wf_trace_take: "wf_trace evs s \<Longrightarrow> wf_trace (take n evs) s"
proof (induction evs arbitrary: s n)
  case Nil
  then show ?case by simp
next
  case (Cons e es)
  then show ?case by (cases n) simp_all
qed

lemma consistent_final: "wf_trace evs init \<Longrightarrow> consistent (final (take n evs))"
  unfolding final_def by (rule consistent_run [OF consistent_init wf_trace_take])



section \<open>The waiting queue is first in, first out\<close>

lemma waitingQueue_fold_push:
  "waitingQueue (fold push us s) = waitingQueue s @ us"
  by (induction us arbitrary: s) (simp_all add: push_def)

lemma matches_queue:
  "matches (length (waitingQueue s)) s = map (\<lambda>u. Some (socketId u)) (waitingQueue s)"
proof (induction "waitingQueue s" arbitrary: s)
  case Nil
  then show ?case by simp
next
  case (Cons u us)
  from Cons.hyps(2) have q: "waitingQueue s = u # us" by simp
  have "us = waitingQueue (s\<lparr>waitingQueue := us\<rparr>)" by simp
  from Cons.hyps(1) [OF this] q show ?case
    by (simp add: findMatch_def)
qed

text \<open>
  C3. \<open>findMatch\<close> on an empty queue returns nothing and leaves the state as it is; on a
  non-empty queue it returns the identifier of the first entry and removes exactly that
  entry. Entries pushed in the order \<open>us\<close> onto an empty queue are returned by the next
  \<open>length us\<close> calls in that same order; in particular three waiters W1, W2, W3 are
  dequeued as W1, W2, W3, and a fourth call finds nothing.
\<close>

theorem C3_findMatch_fifo:
  "findMatch c (s\<lparr>waitingQueue := []\<rparr>) = (None, s\<lparr>waitingQueue := []\<rparr>)
   \<and> findMatch c (s\<lparr>waitingQueue := u # us\<rparr>) = (Some (socketId u), s\<lparr>waitingQueue := us\<rparr>)
   \<and> matches (length ws) (fold push ws (s\<lparr>waitingQueue := []\<rparr>)) = map (\<lambda>w. Some (socketId w)) ws
   \<and> matches 4 (push w3 (push w2 (push w1 (s\<lparr>waitingQueue := []\<rparr>))))
       = [Some (socketId w1), Some (socketId w2), Some (socketId w3), None]"
proof -
  have a: "findMatch c (s\<lparr>waitingQueue := []\<rparr>) = (None, s\<lparr>waitingQueue := []\<rparr>)"
    by (simp add: findMatch_def)
  have b: "findMatch c (s\<lparr>waitingQueue := u # us\<rparr>)
             = (Some (socketId u), s\<lparr>waitingQueue := us\<rparr>)"
    by (simp add: findMatch_def)
  have "matches (length (waitingQueue (fold push ws (s\<lparr>waitingQueue := []\<rparr>))))
          (fold push ws (s\<lparr>waitingQueue := []\<rparr>))
        = map (\<lambda>w. Some (socketId w)) (waitingQueue (fold push ws (s\<lparr>waitingQueue := []\<rparr>)))"
    by (rule matches_queue)
  then have c: "matches (length ws) (fold push ws (s\<lparr>waitingQueue := []\<rparr>))
                  = map (\<lambda>w. Some (socketId w)) ws"
    by (simp add: waitingQueue_fold_push)
  have d: "matches 4 (push w3 (push w2 (push w1 (s\<lparr>waitingQueue := []\<rparr>))))
             = [Some (socketId w1), Some (socketId w2), Some (socketId w3), None]"
    by (simp add: numeral_eq_Suc push_def findMatch_def)
  from a b c d show ?thesis by simp
qed

section \<open>Membership in the queue and in the pairing table\<close>

lemmas handler_defs =
  connection_def findNext_def disconnect_def signal_def sweep_def cleanupUser_def
  findMatch_def push_def isExpired_def timeout_def init_def final_def Let_def

lemma entries_le1: "consistent s \<Longrightarrow> entries s x \<le> 1"
proof -
  assume c: "consistent s"
  have "entries s x \<le> length (waitingQueue s)"
    unfolding entries_def by (rule length_filter_le)
  with queue_le1 [OF c] show ?thesis by simp
qed

lemma entries_unpaired:
  assumes c: "consistent s" and e: "0 < entries s x"
  shows "peers s x = None"
proof -
  from e have "filter (\<lambda>u. socketId u = x) (waitingQueue s) \<noteq> []"
    by (simp add: entries_def)
  then obtain u where "u \<in> set (waitingQueue s)" "socketId u = x"
    by (auto simp: filter_empty_conv)
  with queue_unpaired [OF c] show ?thesis by auto
qed

text \<open>
  C1. After every prefix of every run of connect, signal, find-next, disconnect and sweep
  events, each connection identifier is in exactly one of the three situations: present
  in neither structure, holding a queue entry, holding an entry in the pairing table. It
  never holds a queue entry and a pairing at once, and never more than one queue entry.
  The run is one the transport can produce: each new socket has a non-empty identifier
  that no live socket has.
\<close>

theorem C1_one_membership:
  assumes "wf_trace evs init"
  shows "(\<exists>!m. inState (final (take n evs)) x m) \<and> entries (final (take n evs)) x \<le> 1"
proof -
  let ?s = "final (take n evs)"
  have c: "consistent ?s" using assms by (rule consistent_final)
  have ex: "\<exists>m. inState ?s x m"
  proof (cases "0 < entries ?s x")
    case True
    then have "inState ?s x QUEUED" by simp
    then show ?thesis ..
  next
    case False
    show ?thesis
    proof (cases "peers ?s x")
      case None
      with False have "inState ?s x NotPresent" by simp
      then show ?thesis ..
    next
      case (Some p)
      then have "inState ?s x PAIRED" by simp
      then show ?thesis ..
    qed
  qed
  have un: "m = m'" if m: "inState ?s x m" and m': "inState ?s x m'" for m m'
    using m m' entries_unpaired [OF c, of x]
    by (cases m; cases m') auto
  from ex un have "\<exists>!m. inState ?s x m" by blast
  with entries_le1 [OF c] show ?thesis by simp
qed

theorem C1_one_membership_witness:
  "wf_trace exampleTrace init
   \<and> (\<exists>!m. inState (final (take 4 exampleTrace)) ''A'' m)
   \<and> entries (final (take 4 exampleTrace)) ''A'' \<le> 1
   \<and> inState (final (take 4 exampleTrace)) ''A'' PAIRED"
proof -
  have h: "wf_trace exampleTrace init"
    by (simp add: exampleTrace_def handler_defs)
  have p: "inState (final (take 4 exampleTrace)) ''A'' PAIRED"
    by (simp add: exampleTrace_def handler_defs)
  from C1_one_membership [OF h, of 4 "''A''"] h p show ?thesis by simp
qed

section \<open>Symmetry of the pairing table\<close>

text \<open>
  C5. In every reachable state \<open>s\<close>, an entry \<open>a \<mapsto> b\<close> of the pairing table comes with
  the entry \<open>b \<mapsto> a\<close>, and both connections are live. With \<open>s'\<close> the state one event
  later, an entry \<open>a \<mapsto> b\<close> that the event created comes with a created \<open>b \<mapsto> a\<close>, and
  an entry that the event removed comes with a removed \<open>b \<mapsto> a\<close>.
\<close>

theorem C5_pairing_symmetric:
  assumes wf: "wf_trace evs init"
    and s: "s = final (take n evs)" and s': "s' = final (take (Suc n) evs)"
  shows "(peers s a = Some b \<longrightarrow>
            peers s b = Some a \<and> sockets s a \<noteq> None \<and> sockets s b \<noteq> None)
       \<and> (peers s' a = Some b \<and> peers s a \<noteq> Some b \<longrightarrow>
            peers s' b = Some a \<and> peers s b \<noteq> Some a)
       \<and> (peers s a = Some b \<and> peers s' a \<noteq> Some b \<longrightarrow>
            peers s b = Some a \<and> peers s' b \<noteq> Some a)"
proof -
  have c: "consistent s" unfolding s using wf by (rule consistent_final)
  have c': "consistent s'" unfolding s' using wf by (rule consistent_final)
  have 1: "peers s b = Some a \<and> sockets s a \<noteq> None \<and> sockets s b \<noteq> None"
    if ab: "peers s a = Some b"
  proof -
    from peers_sym [OF c ab] have ba: "peers s b = Some a" .
    from ba peers_live [OF c ab] peers_live [OF c ba] show ?thesis by simp
  qed
  have 2: "peers s' b = Some a \<and> peers s b \<noteq> Some a"
    if new: "peers s' a = Some b" and old: "peers s a \<noteq> Some b"
  proof -
    from peers_sym [OF c' new] have "peers s' b = Some a" .
    moreover from old peers_sym [OF c, of b a] have "peers s b \<noteq> Some a" by blast
    ultimately show ?thesis by simp
  qed
  have 3: "peers s b = Some a \<and> peers s' b \<noteq> Some a"
    if old: "peers s a = Some b" and new: "peers s' a \<noteq> Some b"
  proof -
    from peers_sym [OF c old] have "peers s b = Some a" .
    moreover from new peers_sym [OF c', of b a] have "peers s' b \<noteq> Some a" by blast
    ultimately show ?thesis by simp
  qed
  from 1 2 3 show ?thesis by blast
qed

theorem C5_pairing_symmetric_witness:
  "wf_trace exampleTrace init
   \<and> peers (final (take 3 exampleTrace)) ''A'' = Some ''B''
   \<and> peers (final (take 3 exampleTrace)) ''B'' = Some ''A''
   \<and> sockets (final (take 3 exampleTrace)) ''A'' \<noteq> None
   \<and> sockets (final (take 3 exampleTrace)) ''B'' \<noteq> None
   \<and> peers (final (take (Suc 3) exampleTrace)) ''A'' \<noteq> Some ''B''
   \<and> peers (final (take (Suc 3) exampleTrace)) ''B'' \<noteq> Some ''A''"
proof -
  have h: "wf_trace exampleTrace init"
    by (simp add: exampleTrace_def handler_defs)
  have p: "peers (final (take 3 exampleTrace)) ''A'' = Some ''B''"
    by (simp add: exampleTrace_def handler_defs)
  have q: "peers (final (take (Suc 3) exampleTrace)) ''A'' \<noteq> Some ''B''"
    by (simp add: exampleTrace_def handler_defs)
  from C5_pairing_symmetric [OF h refl refl, of 3 "''A''" "''B''"] h p q
  show ?thesis by blast
qed

section \<open>Who initiates\<close>

text \<open>
  C4. When \<open>connection\<close> or \<open>find-next\<close> finds a waiter \<open>w\<close> at the head of the queue
  (with a non-empty identifier, as all identifiers of the transport are), the waiter
  is paired with the requester and the match-found messages of that handler run are
  exactly two: one to the dequeued
  waiter, naming the requester, with \<open>isInitiator = true\<close>, and one to the requester,
  naming the waiter, with \<open>isInitiator = false\<close>. When the queue is empty no match is
  made and no match-found message is emitted.
\<close>

theorem C4_initiator:
  "(waitingQueue s = w # ws \<and> socketId w \<noteq> [] \<longrightarrow>
      filter isMatchFound (emitted (snd (connection sock ua now s)))
        = [(socketId w, MatchFound sock True), (sock, MatchFound (socketId w) False)]
      \<and> filter isMatchFound (emitted (snd (findNext usr s)))
        = [(socketId w, MatchFound (socketId usr) True),
           (socketId usr, MatchFound (socketId w) False)]
      \<and> peers (fst (connection sock ua now s)) (socketId w) = Some sock
      \<and> peers (fst (findNext usr s)) (socketId w) = Some (socketId usr))
   \<and> (waitingQueue s = [] \<longrightarrow>
      filter isMatchFound (emitted (snd (connection sock ua now s))) = []
      \<and> filter isMatchFound (emitted (snd (findNext usr s))) = [])"
proof -
  have 1: "filter isMatchFound (emitted (snd (connection sock ua now s)))
        = [(socketId w, MatchFound sock True), (sock, MatchFound (socketId w) False)]"
    if "waitingQueue s = w # ws" "socketId w \<noteq> []"
    using that by (simp add: connection_def findMatch_def Let_def)
  have 2: "filter isMatchFound (emitted (snd (findNext usr s)))
        = [(socketId w, MatchFound (socketId usr) True),
           (socketId usr, MatchFound (socketId w) False)]"
    if "waitingQueue s = w # ws" "socketId w \<noteq> []"
    using that
    by (cases "truthy (peers s (socketId usr))")
      (simp_all add: findNext_def findMatch_def Let_def)
  have 5: "peers (fst (connection sock ua now s)) (socketId w) = Some sock"
    if "waitingQueue s = w # ws" "socketId w \<noteq> []"
    using that by (simp add: connection_def findMatch_def Let_def)
  have 6: "peers (fst (findNext usr s)) (socketId w) = Some (socketId usr)"
    if "waitingQueue s = w # ws" "socketId w \<noteq> []"
    using that
    by (cases "truthy (peers s (socketId usr))")
      (simp_all add: findNext_def findMatch_def Let_def)
  have 3: "filter isMatchFound (emitted (snd (connection sock ua now s))) = []"
    if "waitingQueue s = []"
    using that by (simp add: connection_def findMatch_def Let_def)
  have 4: "filter isMatchFound (emitted (snd (findNext usr s))) = []"
    if "waitingQueue s = []"
    using that
    by (cases "truthy (peers s (socketId usr))")
      (simp_all add: findNext_def findMatch_def Let_def)
  from 1 2 3 4 5 6 show ?thesis by blast
qed

theorem C4_initiator_witness:
  "waitingQueue (final waitingA) = [userA] \<and> socketId userA \<noteq> []
   \<and> filter isMatchFound (emitted (snd (connection ''B'' None 1000 (final waitingA))))
        = [(''A'', MatchFound ''B'' True), (''B'', MatchFound ''A'' False)]
   \<and> filter isMatchFound (emitted (snd (findNext userA (final waitingA))))
        = [(''A'', MatchFound ''A'' True), (''A'', MatchFound ''A'' False)]
   \<and> waitingQueue init = []
   \<and> filter isMatchFound (emitted (snd (connection ''A'' None 0 init))) = []"
proof -
  have q: "waitingQueue (final waitingA) = [userA]"
    by (simp add: waitingA_def userA_def handler_defs)
  have n: "socketId userA \<noteq> []" by (simp add: userA_def)
  have e: "waitingQueue init = []" by (simp add: init_def)
  have i: "socketId userA = ''A''" by (simp add: userA_def)
  from C4_initiator [of "final waitingA" userA "[]" "''B''" None 1000 userA]
    C4_initiator [of init userA "[]" "''A''" None 0 userA] q n e i
  show ?thesis by simp
qed

section \<open>Skipping while waiting\<close>

text \<open>
  C10. When the connection that sends find-next is itself the only entry of the waiting
  queue, \<open>findMatch\<close> returns that connection's own identifier, the queue becomes
  empty, the pairing table records the connection as its own partner, and the
  match-found messages are two messages to that same connection, the first with
  \<open>isInitiator = true\<close> and the second with \<open>isInitiator = false\<close>.
\<close>

theorem C10_self_match:
  assumes q: "waitingQueue s = [w]" and same: "socketId w = socketId usr"
    and ne: "socketId usr \<noteq> []"
  shows "fst (findMatch (socketId usr) s) = Some (socketId usr)
       \<and> waitingQueue (fst (findNext usr s)) = []
       \<and> peers (fst (findNext usr s)) (socketId usr) = Some (socketId usr)
       \<and> filter isMatchFound (emitted (snd (findNext usr s)))
           = [(socketId usr, MatchFound (socketId usr) True),
              (socketId usr, MatchFound (socketId usr) False)]"
proof -
  have a: "fst (findMatch (socketId usr) s) = Some (socketId usr)"
    using q same by (simp add: findMatch_def)
  have b: "waitingQueue (fst (findNext usr s)) = []"
    using q same ne
    by (cases "truthy (peers s (socketId usr))") (simp_all add: findNext_def findMatch_def Let_def)
  have c: "peers (fst (findNext usr s)) (socketId usr) = Some (socketId usr)"
    using q same ne
    by (cases "truthy (peers s (socketId usr))") (simp_all add: findNext_def findMatch_def Let_def)
  have d: "filter isMatchFound (emitted (snd (findNext usr s)))
           = [(socketId usr, MatchFound (socketId usr) True),
              (socketId usr, MatchFound (socketId usr) False)]"
    using q same ne
    by (cases "truthy (peers s (socketId usr))") (simp_all add: findNext_def findMatch_def Let_def)
  from a b c d show ?thesis by simp
qed

theorem C10_self_match_witness:
  "waitingQueue (final waitingA) = [userA] \<and> socketId userA \<noteq> []
   \<and> sockets (final waitingA) ''A'' = Some userA
   \<and> waitingQueue (fst (findNext userA (final waitingA))) = []
   \<and> peers (fst (findNext userA (final waitingA))) ''A'' = Some ''A''
   \<and> filter isMatchFound (emitted (snd (findNext userA (final waitingA))))
        = [(''A'', MatchFound ''A'' True), (''A'', MatchFound ''A'' False)]"
proof -
  have q: "waitingQueue (final waitingA) = [userA]"
    by (simp add: waitingA_def userA_def handler_defs)
  have l: "sockets (final waitingA) ''A'' = Some userA"
    by (simp add: waitingA_def userA_def handler_defs)
  have n: "socketId userA \<noteq> []" by (simp add: userA_def)
  have i: "socketId userA = ''A''" by (simp add: userA_def)
  from C10_self_match [OF q refl n] q l n i show ?thesis by simp
qed

text \<open>
  C2. The run in which A connects, waits alone in the queue and then sends find-next.
  Before the find-next A is queued exactly once and has no pairing. After it A has no
  queue entry and is paired with itself, and the find-next emitted two match-found
  messages to A: the call is not a no-op and A is not left queued.
\<close>

theorem C2_skip_while_queued_pairs_with_itself:
  "inState (final waitingA) ''A'' QUEUED
   \<and> entries (final waitingA) ''A'' = 1
   \<and> peers (final waitingA) ''A'' = None
   \<and> skipWhileQueued = waitingA @ [FindNext ''A'']
   \<and> wf_trace skipWhileQueued init
   \<and> entries (final skipWhileQueued) ''A'' = 0
   \<and> \<not> inState (final skipWhileQueued) ''A'' QUEUED
   \<and> peers (final skipWhileQueued) ''A'' = Some ''A''
   \<and> emitted (snd (step (FindNext ''A'') (final waitingA)))
        = [(''A'', MatchFound ''A'' True), (''A'', MatchFound ''A'' False)]"
  by (simp add: skipWhileQueued_def waitingA_def entries_def handler_defs)

section \<open>The signaling relay\<close>




section \<open>Disconnecting\<close>

lemma entries_filter_self:
  "length (filter (\<lambda>u. socketId u = x) (filter (\<lambda>u. socketId u \<noteq> x) q)) = 0"
  by (induction q) simp_all

lemma entries_filter_le:
  "length (filter P (filter Q q)) \<le> length (filter P q)"
  by (induction q) simp_all

lemma entries_zero: "consistent s \<Longrightarrow> peers s p \<noteq> None \<Longrightarrow> entries s p = 0"
  using entries_unpaired [of s p] by (cases "entries s p") auto

text \<open>
  C7. In a reachable state let the live connection \<open>x\<close> disconnect. Afterwards \<open>x\<close>
  has no queue entry and no pairing and is not live, and the queue is the old queue
  without the entries of \<open>x\<close>: nobody is enqueued. A former partner, that is another
  connection \<open>p\<close> that the pairing table recorded for \<open>x\<close>, is live before and after,
  receives exactly one peer-disconnected message, which is the only message of the
  handler, has no pairing any more, and had and has no queue entry. The same holds for
  whatever connection the table recorded, as long as it is still live. When the table
  has no entry for \<open>x\<close> nothing is emitted.
\<close>

theorem C7_disconnect_cleanup:
  assumes wf: "wf_trace evs init" and s: "s = final evs"
    and live: "sockets s x = Some usr"
    and r: "step (Disconnect x) s = (s', outs)"
  shows "entries s' x = 0 \<and> peers s' x = None \<and> sockets s' x = None
       \<and> waitingQueue s' = filter (\<lambda>u. socketId u \<noteq> x) (waitingQueue s)
       \<and> (peers s x = Some p \<and> p \<noteq> x \<longrightarrow>
            sockets s p \<noteq> None \<and> sockets s' p \<noteq> None
            \<and> emitted outs = [(p, PeerDisconnected)]
            \<and> count_list (emitted outs) (p, PeerDisconnected) = 1
            \<and> peers s' p = None \<and> entries s p = 0 \<and> entries s' p = 0)
       \<and> (peers s x = Some p \<and> sockets s' p \<noteq> None \<longrightarrow>
            emitted outs = [(p, PeerDisconnected)]
            \<and> count_list (emitted outs) (p, PeerDisconnected) = 1
            \<and> peers s' p = None \<and> entries s' p = 0)
       \<and> (peers s x = None \<longrightarrow> emitted outs = [])"
proof -
  have "consistent (final (take (length evs) evs))" using wf by (rule consistent_final)
  then have c: "consistent s" by (simp add: s)
  let ?t = "s\<lparr>sockets := (sockets s)(x := None)\<rparr>"
  from sockets_id [OF c live] have id: "socketId usr = x" .
  from r live have r': "disconnect usr ?t = (s', outs)" by simp
  have tp: "truthy (peers s x) = peers s x" by (rule truthy_peers [OF c])
  from r' have s': "s' = cleanupUser x ?t"
    by (simp add: disconnect_def Let_def id)
  from r' have outs: "outs = Log x ''USER_DISCONNECTED'' #
       (case peers s x of
          Some q \<Rightarrow> if sockets ?t q \<noteq> None then [Emit q PeerDisconnected] else []
        | None \<Rightarrow> [])"
    using tp by (auto simp add: disconnect_def Let_def id)
  have q: "waitingQueue s' = filter (\<lambda>u. socketId u \<noteq> x) (waitingQueue s)"
    by (simp add: s' waitingQueue_cleanupUser)
  have so: "sockets s' = (sockets s)(x := None)"
    by (simp add: s' sockets_cleanupUser)
  have pe: "peers s' = (case peers s x of
        Some q \<Rightarrow> ((peers s)(q := None))(x := None) | None \<Rightarrow> peers s)"
    using tp by (simp add: s' peers_cleanupUser split: option.splits)
  have 1: "entries s' x = 0"
    by (simp add: entries_def q entries_filter_self)
  have 2: "peers s' x = None"
    by (simp add: pe split: option.splits)
  have 3: "sockets s' x = None" by (simp add: so)
  have e0: "entries s p = 0" if p: "peers s x = Some p"
  proof -
    from peers_sym [OF c p] have "peers s p \<noteq> None" by simp
    then show ?thesis by (rule entries_zero [OF c])
  qed
  have 5: "emitted outs = [(p, PeerDisconnected)]
            \<and> count_list (emitted outs) (p, PeerDisconnected) = 1
            \<and> peers s' p = None \<and> entries s' p = 0"
    if p: "peers s x = Some p" and pl: "sockets s' p \<noteq> None"
  proof -
    from pl so have "sockets ?t p \<noteq> None" by simp
    with p outs have e: "emitted outs = [(p, PeerDisconnected)]" by simp
    from p have pp: "peers s' p = None" by (simp add: pe)
    have "entries s' p \<le> entries s p"
      unfolding entries_def q by (rule entries_filter_le)
    with e0 [OF p] have "entries s' p = 0" by simp
    with e pp show ?thesis by simp
  qed
  have 6: "sockets s p \<noteq> None \<and> sockets s' p \<noteq> None"
    if p: "peers s x = Some p" and ne: "p \<noteq> x"
  proof -
    from peers_sym [OF c p] have "peers s p = Some x" .
    from peers_live [OF c this] ne show ?thesis by (simp add: so)
  qed
  have 7: "emitted outs = []" if "peers s x = None"
    using that outs by simp
  from 1 2 3 q 5 6 7 e0 show ?thesis by blast
qed

theorem C7_disconnect_cleanup_witness:
  "wf_trace pairedAB init
   \<and> sockets (final pairedAB) ''B'' = Some userB
   \<and> peers (final pairedAB) ''B'' = Some ''A'' \<and> ''A'' \<noteq> ''B''
   \<and> sockets (fst (step (Disconnect ''B'') (final pairedAB))) ''A'' \<noteq> None
   \<and> emitted (snd (step (Disconnect ''B'') (final pairedAB))) = [(''A'', PeerDisconnected)]
   \<and> peers (fst (step (Disconnect ''B'') (final pairedAB))) ''A'' = None
   \<and> peers (fst (step (Disconnect ''B'') (final pairedAB))) ''B'' = None
   \<and> entries (fst (step (Disconnect ''B'') (final pairedAB))) ''A'' = 0
   \<and> entries (fst (step (Disconnect ''B'') (final pairedAB))) ''B'' = 0"
proof -
  have h: "wf_trace pairedAB init"
    by (simp add: pairedAB_def handler_defs)
  have l: "sockets (final pairedAB) ''B'' = Some userB"
    by (simp add: pairedAB_def userB_def handler_defs)
  have p: "peers (final pairedAB) ''B'' = Some ''A''"
    by (simp add: pairedAB_def handler_defs)
  have r: "step (Disconnect ''B'') (final pairedAB)
            = (fst (step (Disconnect ''B'') (final pairedAB)),
               snd (step (Disconnect ''B'') (final pairedAB)))"
    by simp
  from C7_disconnect_cleanup [OF h refl l r, of "''A''"] h l p
  show ?thesis by simp
qed

section \<open>The queue sweep\<close>

text \<open>
  C8. The sweep keeps exactly the entries with \<open>now - joinedAt \<le> 300000\<close>, and
  \<open>joinedAt\<close> is the time of the connection: find-next enqueues the \<open>user\<close> object
  of its closure, whatever the time of the skip. In the run below A connects at time 0,
  is matched with B and later skips onto the empty queue; A's new entry still carries
  time 0, and a sweep at 360001 ms removes it, however recently A was enqueued again.
\<close>

theorem C8_requeued_entry_keeps_connection_time:
  "wf_trace requeuedA init
   \<and> peers (final pairedAB) ''A'' = Some ''B''
   \<and> requeuedA = pairedAB @ [FindNext ''A'']
   \<and> waitingQueue (final requeuedA) = [userA]
   \<and> joinedAt userA = 0
   \<and> waitingQueue (fst (step (Sweep 360001) (final requeuedA))) = []
   \<and> snd (step (Sweep 360001) (final requeuedA)) = [Log ''A'' ''QUEUE_TIMEOUT'']
   \<and> waitingQueue (fst (sweep now s))
        = filter (\<lambda>u. now - joinedAt u \<le> 300000) (waitingQueue s)
   \<and> waitingQueue (fst (findNext usr (s\<lparr>waitingQueue := []\<rparr>))) = [usr]"
proof -
  have a: "wf_trace requeuedA init"
    by (simp add: requeuedA_def handler_defs)
  have b: "peers (final pairedAB) ''A'' = Some ''B''"
    by (simp add: pairedAB_def handler_defs)
  have c: "requeuedA = pairedAB @ [FindNext ''A'']"
    by (simp add: requeuedA_def pairedAB_def)
  have d: "waitingQueue (final requeuedA) = [userA]"
    by (simp add: requeuedA_def userA_def handler_defs)
  have e: "joinedAt userA = 0" by (simp add: userA_def)
  have f: "waitingQueue (fst (step (Sweep 360001) (final requeuedA))) = []"
    by (simp add: requeuedA_def handler_defs)
  have g: "snd (step (Sweep 360001) (final requeuedA)) = [Log ''A'' ''QUEUE_TIMEOUT'']"
    by (simp add: requeuedA_def handler_defs)
  have h: "waitingQueue (fst (sweep now s))
        = filter (\<lambda>u. now - joinedAt u \<le> 300000) (waitingQueue s)"
    by (simp add: sweep_def isExpired_def timeout_def not_less)
  have i: "waitingQueue (fst (findNext usr (s\<lparr>waitingQueue := []\<rparr>))) = [usr]"
    by (cases "truthy (peers s (socketId usr))")
      (simp_all add: findNext_def findMatch_def push_def Let_def)
  from a b c d e f g h i show ?thesis by simp
qed

section \<open>Enqueueing\<close>






end
